theory Spec2Isabelle
  imports Main
begin

section \<open>The Perks Browser View (client/src/pages/AllPerks.jsx)\<close>

text \<open>
  The page is a React function component. Its seven \<^verbatim>\<open>useState\<close> cells are a record,
  every render closes over the values the cells had at that render, the two
  \<^verbatim>\<open>useEffect\<close> hooks run after the first render (the second one again after every
  render in which \<^verbatim>\<open>searchQuery\<close> or \<^verbatim>\<open>merchantFilter\<close> changed), and the
  browser's timers and the pending HTTP requests are explicit parts of the state.
\<close>

subsection \<open>JavaScript strings\<close>

text \<open>
  A JavaScript string is a sequence of UTF-16 code units, here natural numbers.
  \<^verbatim>\<open>String.prototype.trim\<close> strips the code units of ECMAScript's WhiteSpace and
  LineTerminator productions from both ends.
\<close>

type_synonym jsstring = "nat list"

definition js :: "string \<Rightarrow> jsstring" where
  "js s = map of_char s"

definition is_ws :: "nat \<Rightarrow> bool" where
  "is_ws c = (c = 9 \<or> c = 10 \<or> c = 11 \<or> c = 12 \<or> c = 13 \<or> c = 32 \<or> c = 160 \<or>
              c = 5760 \<or> (8192 \<le> c \<and> c \<le> 8202) \<or> c = 8232 \<or> c = 8233 \<or>
              c = 8239 \<or> c = 8287 \<or> c = 12288 \<or> c = 65279)"

definition js_trim :: "jsstring \<Rightarrow> jsstring" where
  "js_trim s = rev (dropWhile is_ws (rev (dropWhile is_ws s)))"

text \<open>A string is truthy when it is not empty.\<close>

definition truthy :: "jsstring \<Rightarrow> bool" where
  "truthy s = (s \<noteq> [])"

text \<open>\<^verbatim>\<open>String(n)\<close> for an integer: its decimal digits, with a minus sign below zero.\<close>

fun digits :: "nat \<Rightarrow> jsstring" where
  "digits n = (if n < 10 then [48 + n] else digits (n div 10) @ [48 + n mod 10])"

declare digits.simps [simp del]

definition js_string_of_int :: "int \<Rightarrow> jsstring" where
  "js_string_of_int i = (if i < 0 then 45 # digits (nat (- i)) else digits (nat i))"

subsection \<open>Perks and the merchant list\<close>

text \<open>
  A perk as the backend returns it: \<^verbatim>\<open>_id\<close>, \<^verbatim>\<open>title\<close>, an optional
  \<^verbatim>\<open>merchant\<close> (\<open>None\<close> when the field is null or missing) and
  \<^verbatim>\<open>discountPercent\<close>, a whole number.
\<close>

record perk =
  pid :: jsstring
  title :: jsstring
  merchant :: "jsstring option"
  discountPercent :: int

text \<open>
  \<^verbatim>\<open>new Set(merchants)\<close> adds the elements in order and ignores one that is already
  there; spreading the set lists its elements in insertion order.
\<close>

definition set_add :: "'a list \<Rightarrow> 'a \<Rightarrow> 'a list" where
  "set_add acc x = (if x \<in> set acc then acc else acc @ [x])"

definition new_Set :: "'a list \<Rightarrow> 'a list" where
  "new_Set xs = foldl set_add [] xs"

text \<open>
  Lines 24 to 27:
  \<^verbatim>\<open>perks.map(perk => perk.merchant).filter(merchant => merchant && merchant.trim())\<close>
  followed by \<^verbatim>\<open>[...new Set(merchants)]\<close>.
\<close>

definition keep_merchant :: "jsstring option \<Rightarrow> bool" where
  "keep_merchant m = (case m of None \<Rightarrow> False | Some s \<Rightarrow> truthy s \<and> truthy (js_trim s))"

definition merchants :: "perk list \<Rightarrow> jsstring list" where
  "merchants ps = map the (filter keep_merchant (map merchant ps))"

definition unique :: "perk list \<Rightarrow> jsstring list" where
  "unique ps = new_Set (merchants ps)"

subsection \<open>Rendering\<close>

text \<open>
  The results count of lines 93 to 95 and one card of the grid of lines 171 to 191: the
  link target, the title, the merchant line when \<^verbatim>\<open>perk.merchant\<close> is truthy and the
  discount badge when \<^verbatim>\<open>perk.discountPercent > 0\<close>.
\<close>

definition count_text :: "perk list \<Rightarrow> jsstring" where
  "count_text ps =
     js ''Showing '' @ digits (length ps) @ js '' perk'' @ (if length ps \<noteq> 1 then js ''s'' else [])"

record perk_card =
  link_to :: jsstring
  card_title :: jsstring
  merchant_line :: "jsstring option"
  badge :: "jsstring option"

definition render_card :: "perk \<Rightarrow> perk_card" where
  "render_card p =
     \<lparr> link_to = js ''/perks/'' @ pid p,
       card_title = title p,
       merchant_line = (case merchant p of None \<Rightarrow> None | Some s \<Rightarrow> if truthy s then Some s else None),
       badge = (if discountPercent p > 0
                then Some (js_string_of_int (discountPercent p) @ js ''% OFF'') else None) \<rparr>"

definition grid :: "perk list \<Rightarrow> perk_card list" where
  "grid ps = map render_card ps"

subsection \<open>Component state, requests and the world around the component\<close>

text \<open>The cells of lines 6 to 12.\<close>

record view =
  perks :: "perk list"
  allMerchants :: "jsstring list"
  uniqueMerchants :: "jsstring list"
  searchQuery :: jsstring
  merchantFilter :: jsstring
  loading :: bool
  error :: jsstring

definition initial_view :: view where
  "initial_view =
     \<lparr> perks = [], allMerchants = [], uniqueMerchants = [], searchQuery = [],
       merchantFilter = [], loading = True, error = [] \<rparr>"

text \<open>
  The query parameters of a \<^verbatim>\<open>GET /perks/all\<close>: \<open>None\<close> is a parameter that is not
  sent (the HTTP client drops a parameter whose value is \<^verbatim>\<open>undefined\<close>).
\<close>

record request =
  search_param :: "jsstring option"
  merchant_param :: "jsstring option"

definition no_params :: request where
  "no_params = \<lparr> search_param = None, merchant_param = None \<rparr>"

text \<open>\<^verbatim>\<open>x || undefined\<close> for a string \<open>x\<close>.\<close>

definition or_undefined :: "jsstring \<Rightarrow> jsstring option" where
  "or_undefined x = (if truthy x then Some x else None)"

text \<open>
  What the backend answers: the perks of \<^verbatim>\<open>res.data.perks\<close>, or a failure (a network
  error or a status outside 2xx) with \<^verbatim>\<open>err.response.data.message\<close> when there is one.
\<close>

datatype response = Success "perk list" | Failure "jsstring option"

text \<open>
  A request in flight remembers which function awaits it. \<^verbatim>\<open>loadAllPerks\<close> reads
  \<^verbatim>\<open>allMerchants\<close> after the \<^verbatim>\<open>await\<close>, and reads the value of the render that
  created that \<^verbatim>\<open>loadAllPerks\<close>, so the value travels with the request.
\<close>

datatype origin = InitialLoad | LoadAllPerks "jsstring list"

text \<open>
  The world: the committed state, the clock in milliseconds, the browser's pending
  timers (identifier, due time, and the render the callback closes over), the timer
  identifier \<^verbatim>\<open>delayDebounce\<close> that the cleanup of the last run of the debounce
  effect holds, the requests in flight (numbered by their position in the log) and the
  log of every request issued, with the time of issue.
\<close>

record world =
  view :: view
  now :: nat
  timers :: "(nat \<times> nat \<times> view) list"
  next_timer :: nat
  delayDebounce :: "nat option"
  inflight :: "(nat \<times> origin) list"
  log :: "(nat \<times> request) list"

definition api_get :: "request \<Rightarrow> origin \<Rightarrow> world \<Rightarrow> world" where
  "api_get r k w =
     w\<lparr> inflight := inflight w @ [(length (log w), k)], log := log w @ [(now w, r)] \<rparr>"

text \<open>Lines 18 to 38, up to the \<^verbatim>\<open>await\<close>.\<close>

definition initialLoad :: "world \<Rightarrow> world" where
  "initialLoad w = api_get no_params InitialLoad w"

text \<open>Lines 54 to 63, up to the \<^verbatim>\<open>await\<close>, for the \<^verbatim>\<open>loadAllPerks\<close> of render \<open>c\<close>.\<close>

definition query :: "view \<Rightarrow> request" where
  "query c =
     \<lparr> search_param = or_undefined (js_trim (searchQuery c)),
       merchant_param = or_undefined (js_trim (merchantFilter c)) \<rparr>"

definition loadAllPerks :: "view \<Rightarrow> world \<Rightarrow> world" where
  "loadAllPerks c w =
     api_get (query c) (LoadAllPerks (allMerchants c))
       (w\<lparr> view := (view w)\<lparr> error := [], loading := True \<rparr> \<rparr>)"

text \<open>\<^verbatim>\<open>err?.response?.data?.message || 'Failed to load perks'\<close>.\<close>

definition error_text :: "jsstring option \<Rightarrow> jsstring" where
  "error_text m =
     (case m of None \<Rightarrow> js ''Failed to load perks''
      | Some s \<Rightarrow> if truthy s then s else js ''Failed to load perks'')"

text \<open>
  The rest of \<^verbatim>\<open>initialLoad\<close> (lines 21 to 35) and of \<^verbatim>\<open>loadAllPerks\<close>
  (lines 64 to 72) once the response is there.
\<close>

fun settle :: "origin \<Rightarrow> response \<Rightarrow> view \<Rightarrow> view" where
  "settle InitialLoad (Success ps) v =
     v\<lparr> perks := ps, allMerchants := unique ps, uniqueMerchants := unique ps, loading := False \<rparr>"
| "settle InitialLoad (Failure m) v = v\<lparr> error := error_text m, loading := False \<rparr>"
| "settle (LoadAllPerks am) (Success ps) v =
     v\<lparr> perks := ps, uniqueMerchants := am, loading := False \<rparr>"
| "settle (LoadAllPerks am) (Failure m) v = v\<lparr> error := error_text m, loading := False \<rparr>"

text \<open>
  The debounce effect of lines 44 to 49: the cleanup of its previous run clears that
  run's timer (clearing a timer that has fired does nothing), then a timer for 500 ms is
  set whose callback calls the \<^verbatim>\<open>loadAllPerks\<close> of the render just committed.
\<close>

definition clearTimeout :: "nat option \<Rightarrow> world \<Rightarrow> world" where
  "clearTimeout h w =
     (case h of None \<Rightarrow> w
      | Some i \<Rightarrow> w\<lparr> timers := filter (\<lambda>t. fst t \<noteq> i) (timers w) \<rparr>)"

definition setTimeout :: "view \<Rightarrow> nat \<Rightarrow> world \<Rightarrow> world" where
  "setTimeout c delay w =
     w\<lparr> timers := timers w @ [(next_timer w, now w + delay, c)],
        next_timer := Suc (next_timer w),
        delayDebounce := Some (next_timer w) \<rparr>"

definition debounce_effect :: "world \<Rightarrow> world" where
  "debounce_effect w = setTimeout (view w) 500 (clearTimeout (delayDebounce w) w)"

text \<open>
  Committing a render with new state: the debounce effect runs again when its
  dependency array \<^verbatim>\<open>[searchQuery, merchantFilter]\<close> differs from the previous one.
\<close>

definition commit :: "view \<Rightarrow> world \<Rightarrow> world" where
  "commit v w =
     (if [searchQuery v, merchantFilter v] = [searchQuery (view w), merchantFilter (view w)]
      then w\<lparr> view := v \<rparr>
      else debounce_effect (w\<lparr> view := v \<rparr>))"

text \<open>The first render and its two effects, in the order of the source.\<close>

definition mount :: world where
  "mount =
     debounce_effect (initialLoad
       \<lparr> view = initial_view, now = 0, timers = [], next_timer = 0, delayDebounce = None,
         inflight = [], log = [] \<rparr>)"

text \<open>
  Time passing: every timer due by then fires at its due time, in the order the timers
  were set (all have the same delay), and calls the \<^verbatim>\<open>loadAllPerks\<close> it closes over.
\<close>

definition due :: "nat \<Rightarrow> nat \<times> nat \<times> view \<Rightarrow> bool" where
  "due t x = (fst (snd x) \<le> t)"

definition fire :: "nat \<times> nat \<times> view \<Rightarrow> world \<Rightarrow> world" where
  "fire x w = loadAllPerks (snd (snd x)) (w\<lparr> now := fst (snd x) \<rparr>)"

definition elapse :: "nat \<Rightarrow> world \<Rightarrow> world" where
  "elapse d w =
     (fold fire (filter (due (now w + d)) (timers w))
        (w\<lparr> timers := filter (\<lambda>x. \<not> due (now w + d) x) (timers w) \<rparr>))
     \<lparr> now := now w + d \<rparr>"

text \<open>
  What can happen to the mounted page: the user types in the search box or picks a
  merchant (\<^verbatim>\<open>onChange\<close>), submits the form (\<^verbatim>\<open>handleSearch\<close>), clicks Reset Filters
  (\<^verbatim>\<open>handleReset\<close>), time passes, or the backend answers a request in flight. Event
  handlers are those of the last committed render.
\<close>

datatype event =
    Type jsstring
  | Select jsstring
  | Submit
  | Reset
  | Elapse nat
  | Respond nat response

fun step :: "world \<Rightarrow> event \<Rightarrow> world" where
  "step w (Type s) = commit ((view w)\<lparr> searchQuery := s \<rparr>) w"
| "step w (Select m) = commit ((view w)\<lparr> merchantFilter := m \<rparr>) w"
| "step w Submit = loadAllPerks (view w) w"
| "step w Reset =
     commit ((view w)\<lparr> searchQuery := [], merchantFilter := [],
                        uniqueMerchants := allMerchants (view w) \<rparr>) w"
| "step w (Elapse d) = elapse d w"
| "step w (Respond i r) =
     (case map_of (inflight w) i of
        None \<Rightarrow> w
      | Some k \<Rightarrow> commit (settle k r (view w))
                    (w\<lparr> inflight := filter (\<lambda>x. fst x \<noteq> i) (inflight w) \<rparr>))"

definition run :: "world \<Rightarrow> event list \<Rightarrow> world" where
  "run w es = foldl step w es"

subsection \<open>Traces\<close>



text \<open>The two perks of the rendering example.\<close>

definition sample_perks :: "perk list" where
  "sample_perks =
     [\<lparr> pid = js ''1'', title = js ''A'', merchant = Some (js ''X''), discountPercent = 0 \<rparr>,
      \<lparr> pid = js ''2'', title = js ''B'', merchant = Some (js ''Y''), discountPercent = 20 \<rparr>]"

text \<open>
  What holds of every state the mounted page can reach: at most one timer is pending, it
  is the one the debounce effect's cleanup would clear, it is due within the next 500 ms,
  its callback closes over the current filter values, and the requests in flight carry
  distinct numbers of log entries.
\<close>

definition timer_ok :: "world \<Rightarrow> nat \<times> nat \<times> view \<Rightarrow> bool" where
  "timer_ok w x =
     (delayDebounce w = Some (fst x) \<and> now w < fst (snd x) \<and> fst (snd x) \<le> now w + 500 \<and>
      searchQuery (snd (snd x)) = searchQuery (view w) \<and>
      merchantFilter (snd (snd x)) = merchantFilter (view w))"

definition consistent :: "world \<Rightarrow> bool" where
  "consistent w =
     (length (timers w) \<le> 1 \<and> list_all (timer_ok w) (timers w) \<and>
      list_all (\<lambda>x. fst x < length (log w)) (inflight w) \<and> distinct (map fst (inflight w)))"

section \<open>Properties\<close>

subsection \<open>Strings, merchants, rendering\<close>

lemma set_foldl_set_add: "set (foldl set_add acc xs) = set acc \<union> set xs"
  by (induction xs arbitrary: acc) (auto simp: set_add_def)

lemma distinct_foldl_set_add: "distinct acc \<Longrightarrow> distinct (foldl set_add acc xs)"
  by (induction xs arbitrary: acc) (auto simp: set_add_def)

lemma all_ws_dropWhile: "(\<forall>x \<in> set (dropWhile P s). P x) \<longleftrightarrow> (\<forall>x \<in> set s. P x)"
proof
  assume h: "\<forall>x \<in> set (dropWhile P s). P x"
  have "dropWhile P s = []"
  proof (rule ccontr)
    assume ne: "dropWhile P s \<noteq> []"
    then have "\<not> P (hd (dropWhile P s))" by (rule hd_dropWhile)
    moreover from ne have "hd (dropWhile P s) \<in> set (dropWhile P s)" by simp
    ultimately show False using h by blast
  qed
  then show "\<forall>x \<in> set s. P x" by (simp only: dropWhile_eq_Nil_conv)
next
  assume "\<forall>x \<in> set s. P x"
  then show "\<forall>x \<in> set (dropWhile P s). P x" by (blast dest: set_dropWhileD)
qed

lemma js_trim_empty_iff: "js_trim s = [] \<longleftrightarrow> list_all is_ws s"
  by (simp add: js_trim_def dropWhile_eq_Nil_conv all_ws_dropWhile list_all_iff)

lemma js_trim_Nil: "js_trim [] = []"
  by (simp add: js_trim_def)

lemma keep_merchant_Some: "keep_merchant (Some s) \<longleftrightarrow> js_trim s \<noteq> []"
  using js_trim_Nil by (auto simp: keep_merchant_def truthy_def)

lemma set_merchants:
  "set (merchants ps) = {s. (\<exists>p \<in> set ps. merchant p = Some s) \<and> js_trim s \<noteq> []}"
proof (induction ps)
  case Nil
  show ?case by (simp add: merchants_def)
next
  case (Cons p ps)
  have step: "merchants (p # ps) =
      (case merchant p of None \<Rightarrow> merchants ps
       | Some s \<Rightarrow> if js_trim s \<noteq> [] then s # merchants ps else merchants ps)"
    by (simp add: merchants_def keep_merchant_Some split: option.splits)
      (simp add: keep_merchant_def)
  show ?case
    unfolding step using Cons.IH by (cases "merchant p") auto
qed

lemma digits_2: "digits (Suc (Suc 0)) = [50]"
  by (simp add: digits.simps [of "Suc (Suc 0)"])

lemma digits_20: "digits 20 = [50, 48]"
  by (simp add: digits.simps [of 20] digits.simps [of 2])

lemma grid_sample:
  "grid sample_perks =
     [\<lparr> link_to = js ''/perks/1'', card_title = js ''A'', merchant_line = Some (js ''X''), badge = None \<rparr>,
      \<lparr> link_to = js ''/perks/2'', card_title = js ''B'', merchant_line = Some (js ''Y''),
        badge = Some (js ''20% OFF'') \<rparr>]"
  by (simp add: grid_def sample_perks_def render_card_def js_def truthy_def js_string_of_int_def digits_20)

lemma count_sample: "count_text sample_perks = js ''Showing 2 perks''"
  by (simp add: count_text_def sample_perks_def js_def digits_2)

lemma badge_iff: "badge (render_card p) \<noteq> None \<longleftrightarrow> discountPercent p > 0"
  by (simp add: render_card_def)

lemma mount_eq:
  "mount =
     \<lparr> view = initial_view, now = 0, timers = [(0, 500, initial_view)], next_timer = 1,
       delayDebounce = Some 0, inflight = [(0, InitialLoad)], log = [(0, no_params)] \<rparr>"
  by (simp add: mount_def debounce_effect_def setTimeout_def clearTimeout_def initialLoad_def api_get_def)

subsection \<open>The invariant\<close>

lemma consistent_timers:
  assumes "consistent w"
  obtains "timers w = []" | i dl c where "timers w = [(i, dl, c)]" "timer_ok w (i, dl, c)"
proof (cases "timers w")
  case Nil
  then show ?thesis using that by simp
next
  case (Cons x xs)
  with assms have "xs = []" by (simp add: consistent_def)
  with Cons assms have "timers w = [x]" "timer_ok w x" by (simp_all add: consistent_def)
  then show ?thesis using that by (cases x) auto
qed

lemma debounce_effect_fields [simp]:
  "view (debounce_effect w) = view w" "now (debounce_effect w) = now w"
  "log (debounce_effect w) = log w" "inflight (debounce_effect w) = inflight w"
  "delayDebounce (debounce_effect w) = Some (next_timer w)"
  by (simp_all add: debounce_effect_def setTimeout_def clearTimeout_def split: option.splits)

lemma commit_fields [simp]:
  "view (commit v w) = v" "now (commit v w) = now w"
  "log (commit v w) = log w" "inflight (commit v w) = inflight w"
  by (simp_all add: commit_def)

lemma loadAllPerks_fields [simp]:
  "view (loadAllPerks c w) = (view w)\<lparr> error := [], loading := True \<rparr>"
  "now (loadAllPerks c w) = now w"
  "timers (loadAllPerks c w) = timers w"
  "delayDebounce (loadAllPerks c w) = delayDebounce w"
  "log (loadAllPerks c w) = log w @ [(now w, query c)]"
  "inflight (loadAllPerks c w) = inflight w @ [(length (log w), LoadAllPerks (allMerchants c))]"
  by (simp_all add: loadAllPerks_def api_get_def)

lemma settle_filters [simp]:
  "searchQuery (settle k r v) = searchQuery v" "merchantFilter (settle k r v) = merchantFilter v"
  by (cases k; cases r; simp)+

lemma consistent_view:
  assumes "consistent w" "searchQuery v = searchQuery (view w)" "merchantFilter v = merchantFilter (view w)"
  shows "consistent (w\<lparr> view := v \<rparr>)"
  using assms by (simp add: consistent_def timer_ok_def list_all_iff)

lemma consistent_commit:
  assumes "consistent w"
  shows "consistent (commit v w)"
proof (cases "[searchQuery v, merchantFilter v] = [searchQuery (view w), merchantFilter (view w)]")
  case True
  then show ?thesis using assms by (simp add: commit_def consistent_view)
next
  case False
  have c: "length (timers w) \<le> 1" "list_all (\<lambda>x. delayDebounce w = Some (fst x)) (timers w)"
    using assms by (auto simp: consistent_def timer_ok_def list_all_iff)
  have "timers (clearTimeout (delayDebounce w) (w\<lparr> view := v \<rparr>)) = []"
    using c by (cases "timers w") (auto simp: clearTimeout_def split: option.splits)
  then have "timers (debounce_effect (w\<lparr> view := v \<rparr>)) = [(next_timer w, now w + 500, v)]"
    by (simp add: debounce_effect_def setTimeout_def clearTimeout_def split: option.splits)
  with False assms show ?thesis
    by (auto simp: commit_def consistent_def timer_ok_def)
qed

lemma consistent_loadAllPerks:
  assumes "consistent w"
  shows "consistent (loadAllPerks c w)"
  using assms by (fastforce simp: consistent_def timer_ok_def list_all_iff)

lemma elapse_cases:
  assumes "consistent w"
  shows "(timers w = [] \<and> elapse d w = w\<lparr> now := now w + d \<rparr>) \<or>
         (\<exists>i dl c. timers w = [(i, dl, c)] \<and> now w + d < dl \<and> elapse d w = w\<lparr> now := now w + d \<rparr>) \<or>
         (\<exists>i dl c. timers w = [(i, dl, c)] \<and> dl \<le> now w + d \<and> now w < dl \<and>
            searchQuery c = searchQuery (view w) \<and> merchantFilter c = merchantFilter (view w) \<and>
            elapse d w = (loadAllPerks c (w\<lparr> timers := [], now := dl \<rparr>))\<lparr> now := now w + d \<rparr>)"
  using assms
proof (rule consistent_timers)
  assume "timers w = []"
  then show ?thesis by (simp add: elapse_def)
next
  fix i dl c assume t: "timers w = [(i, dl, c)]" "timer_ok w (i, dl, c)"
  show ?thesis
  proof (cases "dl \<le> now w + d")
    case True
    with t show ?thesis by (simp add: elapse_def due_def fire_def timer_ok_def loadAllPerks_def api_get_def)
  next
    case False
    with t show ?thesis by (simp add: elapse_def due_def)
  qed
qed

lemma consistent_elapse:
  assumes "consistent w"
  shows "consistent (elapse d w)"
  using elapse_cases [OF assms, of d] assms
  by (fastforce simp: consistent_def timer_ok_def list_all_iff)

lemma consistent_step:
  assumes "consistent w"
  shows "consistent (step w e)"
proof (cases e)
  case (Respond i r)
  show ?thesis
  proof (cases "map_of (inflight w) i")
    case None
    with Respond assms show ?thesis by simp
  next
    case (Some k)
    have "consistent (w\<lparr> inflight := filter (\<lambda>x. fst x \<noteq> i) (inflight w) \<rparr>)"
      using assms by (fastforce simp: consistent_def timer_ok_def list_all_iff distinct_map_filter)
    then show ?thesis using Respond Some by (simp add: consistent_commit)
  qed
qed (simp_all add: assms consistent_commit consistent_loadAllPerks consistent_elapse)

lemma consistent_mount: "consistent mount"
  by (simp add: mount_eq consistent_def timer_ok_def initial_view_def)

lemma consistent_run: "consistent w \<Longrightarrow> consistent (run w es)"
  unfolding run_def by (induction es arbitrary: w) (simp_all add: consistent_step)

subsection \<open>Steps and bursts\<close>

lemma run_Nil [simp]: "run w [] = w"
  by (simp add: run_def)

lemma run_Cons [simp]: "run w (e # es) = run (step w e) es"
  by (simp add: run_def)


lemma consistent_reachable: "consistent (run mount es)"
  by (simp add: consistent_run consistent_mount)

lemma commit_changed:
  assumes "consistent w" "[searchQuery v, merchantFilter v] \<noteq> [searchQuery (view w), merchantFilter (view w)]"
  shows "commit v w = w\<lparr> view := v, timers := [(next_timer w, now w + 500, v)],
            next_timer := Suc (next_timer w), delayDebounce := Some (next_timer w) \<rparr>"
proof -
  have c: "length (timers w) \<le> 1" "list_all (\<lambda>x. delayDebounce w = Some (fst x)) (timers w)"
    using assms(1) by (auto simp: consistent_def timer_ok_def list_all_iff)
  have "timers (clearTimeout (delayDebounce w) (w\<lparr> view := v \<rparr>)) = []"
    using c by (cases "timers w") (auto simp: clearTimeout_def split: option.splits)
  then show ?thesis
    using assms(2)
    by (auto simp: commit_def debounce_effect_def setTimeout_def clearTimeout_def split: option.splits)
qed

lemma commit_unchanged:
  assumes "[searchQuery v, merchantFilter v] = [searchQuery (view w), merchantFilter (view w)]"
  shows "commit v w = w\<lparr> view := v \<rparr>"
  using assms by (simp add: commit_def)

lemma elapse_fires:
  assumes "consistent w" "timers w = [(i, dl, c)]" "dl \<le> now w + d"
  shows "log (elapse d w) = log w @ [(dl, query (view w))]"
    and "timers (elapse d w) = []"
proof -
  from assms(1,2) have "timer_ok w (i, dl, c)" by (simp add: consistent_def)
  then have "query c = query (view w)" by (simp add: timer_ok_def query_def)
  with assms(2,3) show "log (elapse d w) = log w @ [(dl, query (view w))]"
    by (simp add: elapse_def due_def fire_def)
  from assms(2,3) show "timers (elapse d w) = []"
    by (simp add: elapse_def due_def fire_def)
qed





subsection \<open>Requests and responses\<close>

lemma step_Submit:
  "step w Submit =
     w\<lparr> view := (view w)\<lparr> error := [], loading := True \<rparr>,
        inflight := inflight w @ [(length (log w), LoadAllPerks (allMerchants (view w)))],
        log := log w @ [(now w, query (view w))] \<rparr>"
  by (simp add: loadAllPerks_def api_get_def)

lemma settle_Failure: "settle k (Failure m) v = v\<lparr> error := error_text m, loading := False \<rparr>"
  by (cases k) simp_all

lemma step_Respond:
  assumes "map_of (inflight w) i = Some k"
  shows "step w (Respond i r) =
           w\<lparr> view := settle k r (view w), inflight := filter (\<lambda>x. fst x \<noteq> i) (inflight w) \<rparr>"
  using assms by (simp add: commit_unchanged)

lemma fresh_request:
  assumes "consistent w"
  shows "map_of (filter P (inflight w) @ [(length (log w), k)]) (length (log w)) = Some k"
proof -
  have "length (log w) \<notin> fst ` set (filter P (inflight w))"
    using assms by (fastforce simp: consistent_def list_all_iff)
  then have "map_of (filter P (inflight w)) (length (log w)) = None"
    by (simp add: map_of_eq_None_iff)
  then show ?thesis by (simp add: map_add_def)
qed

lemma error_text_shown: "error_text m \<noteq> []"
  by (simp add: error_text_def truthy_def js_def split: option.splits)

lemma query_params:
  "search_param (query v) = (if js_trim (searchQuery v) = [] then None else Some (js_trim (searchQuery v)))"
  "merchant_param (query v) = (if js_trim (merchantFilter v) = [] then None else Some (js_trim (merchantFilter v)))"
  by (simp_all add: query_def or_undefined_def truthy_def)

lemma query_empty: "searchQuery v = [] \<Longrightarrow> merchantFilter v = [] \<Longrightarrow> query v = no_params"
  by (simp add: query_def or_undefined_def truthy_def js_trim_def no_params_def)

lemmas eval_defs = mount_eq commit_def debounce_effect_def setTimeout_def clearTimeout_def
  elapse_def due_def fire_def loadAllPerks_def api_get_def initial_view_def js_def query_def
  or_undefined_def truthy_def js_trim_def is_ws_def no_params_def

section \<open>The claims\<close>

text \<open>
  C1. Mounting issues one unfiltered request at once, and its answer fills the perks, the
  full merchant set and the dropdown. The claim that this is the only unfiltered request
  of the mount does not hold of the code: the debounce effect runs after the first render
  too, so with no input at all its timer fires 500 ms after the mount and
  \<^verbatim>\<open>loadAllPerks\<close> sends a second request without parameters. The trace below is
  the mount, the answer to the first request, and 500 ms without input.
\<close>

theorem mount_then_idle_fetches_twice:
  "log mount = [(0, no_params)] \<and>
   view (step mount (Respond 0 (Success sample_perks))) =
     initial_view\<lparr> perks := sample_perks, allMerchants := [js ''X'', js ''Y''],
                   uniqueMerchants := [js ''X'', js ''Y''], loading := False \<rparr> \<and>
   log (run mount [Respond 0 (Success sample_perks), Elapse 500]) =
     [(0, no_params), (500, no_params)]"
proof -
  have u: "unique sample_perks = [js ''X'', js ''Y'']"
    by (simp add: unique_def new_Set_def set_add_def merchants_def keep_merchant_def truthy_def
        js_trim_def is_ws_def sample_perks_def js_def)
  show ?thesis
    by (simp add: mount_eq commit_def elapse_def due_def fire_def query_empty initial_view_def u)
qed

text \<open>
  C2. The dropdown is meant to keep the merchant set of the initial load after every
  fetch. It does not on the trace of C1 continued by the answer to the second request:
  the \<^verbatim>\<open>loadAllPerks\<close> called by the timer of the mount is the one of the first
  render, whose \<^verbatim>\<open>allMerchants\<close> is still the empty list, so
  \<^verbatim>\<open>setUniqueMerchants(allMerchants)\<close> empties the dropdown while
  \<^verbatim>\<open>allMerchants\<close> itself holds both merchants.
\<close>

theorem debounced_fetch_empties_dropdown:
  "view (run mount [Respond 0 (Success sample_perks), Elapse 500, Respond 1 (Success sample_perks)]) =
     \<lparr> perks = sample_perks, allMerchants = [js ''X'', js ''Y''], uniqueMerchants = [],
       searchQuery = [], merchantFilter = [], loading = False, error = [] \<rparr>"
proof -
  have u: "unique sample_perks = [js ''X'', js ''Y'']"
    by (simp add: unique_def new_Set_def set_add_def merchants_def keep_merchant_def truthy_def
        js_trim_def is_ws_def sample_perks_def js_def)
  show ?thesis
    by (simp add: mount_eq commit_def elapse_def due_def fire_def loadAllPerks_def api_get_def
        initial_view_def u)
qed



text \<open>
  C4. In every reachable state the request of \<^verbatim>\<open>loadAllPerks\<close>, whether the form
  was submitted or the debounce timer fired, carries the parameters computed from the
  current field values: each is the trimmed value, and is left out when the trimmed
  value is empty.
\<close>

theorem filtered_fetch_parameters:
  assumes "w = run mount es"
  shows "log (step w Submit) = log w @ [(now w, query (view w))] \<and>
    (timers w = [(i, dl, c)] \<and> dl \<le> now w + d \<longrightarrow>
       log (step w (Elapse d)) = log w @ [(dl, query (view w))]) \<and>
    search_param (query v) =
      (if js_trim (searchQuery v) = [] then None else Some (js_trim (searchQuery v))) \<and>
    merchant_param (query v) =
      (if js_trim (merchantFilter v) = [] then None else Some (js_trim (merchantFilter v)))"
proof -
  have c: "consistent w" using assms by (simp add: consistent_reachable)
  have "log (step w (Elapse d)) = log w @ [(dl, query (view w))]"
    if "timers w = [(i, dl, c)]" "dl \<le> now w + d"
    using elapse_fires(1) [OF c that] by simp
  then show ?thesis by (simp add: query_params)
qed

theorem filtered_fetch_parameters_witness:
  "timers (run mount [Type (js ''  coffee '')]) =
     [(1, 500, initial_view\<lparr> searchQuery := js ''  coffee '' \<rparr>)] \<and>
   log (step (run mount [Type (js ''  coffee '')]) (Elapse 500)) =
     [(0, no_params), (500, \<lparr> search_param = Some (js ''coffee''), merchant_param = None \<rparr>)] \<and>
   log (step (run mount [Type (js ''  coffee '')]) Submit) =
     [(0, no_params), (0, \<lparr> search_param = Some (js ''coffee''), merchant_param = None \<rparr>)]"
proof -
  let ?w = "run mount [Type (js ''  coffee '')]"
  have w: "?w = \<lparr> view = initial_view\<lparr> searchQuery := js ''  coffee '' \<rparr>, now = 0,
        timers = [(1, 500, initial_view\<lparr> searchQuery := js ''  coffee '' \<rparr>)], next_timer = 2,
        delayDebounce = Some 1, inflight = [(0, InitialLoad)], log = [(0, no_params)] \<rparr>"
    by (simp add: eval_defs)
  have q: "query (initial_view\<lparr> searchQuery := js ''  coffee '' \<rparr>) =
      \<lparr> search_param = Some (js ''coffee''), merchant_param = None \<rparr>"
    by (simp add: eval_defs)
  from filtered_fetch_parameters [OF refl, where es = "[Type (js ''  coffee '')]" and i = 1 and dl = 500 and d = 500
      and c = "initial_view\<lparr> searchQuery := js ''  coffee '' \<rparr>"]
  show ?thesis
    unfolding w by (simp add: q)
qed

text \<open>
  C5. When a request in flight fails, for the initial load and for a filtered fetch alike,
  the error shown becomes the server's message when there is a non-empty one and
  \<^verbatim>\<open>Failed to load perks\<close> otherwise, it is never empty, and the loading flag is
  off. The page goes on working: a submit after the failure issues a request from the
  current field values, and the answer to it is displayed with the error cleared.
\<close>

theorem fetch_failure_displayed:
  assumes "w = run mount es" "map_of (inflight w) i = Some k"
  shows "error (view (step w (Respond i (Failure m)))) =
      (case m of None \<Rightarrow> js ''Failed to load perks''
       | Some s \<Rightarrow> if s = [] then js ''Failed to load perks'' else s) \<and>
    error (view (step w (Respond i (Failure m)))) \<noteq> [] \<and>
    \<not> loading (view (step w (Respond i (Failure m)))) \<and>
    log (run w [Respond i (Failure m), Submit]) = log w @ [(now w, query (view w))] \<and>
    view (run w [Respond i (Failure m), Submit, Respond (length (log w)) (Success ps)]) =
      (view w)\<lparr> perks := ps, uniqueMerchants := allMerchants (view w), loading := False, error := [] \<rparr>"
proof -
  have c: "consistent w" using assms(1) by (simp add: consistent_reachable)
  let ?w1 = "step w (Respond i (Failure m))"
  have w1: "?w1 = w\<lparr> view := (view w)\<lparr> error := error_text m, loading := False \<rparr>,
                     inflight := filter (\<lambda>x. fst x \<noteq> i) (inflight w) \<rparr>"
    by (simp only: step_Respond [OF assms(2)] settle_Failure)
  have e: "error (view ?w1) = error_text m" "\<not> loading (view ?w1)" "log ?w1 = log w" "now ?w1 = now w"
    "query (view ?w1) = query (view w)" "allMerchants (view ?w1) = allMerchants (view w)"
    by (simp_all only: w1) (simp_all add: query_def)
  let ?w2 = "step ?w1 Submit"
  have w2: "?w2 = ?w1\<lparr> view := (view ?w1)\<lparr> error := [], loading := True \<rparr>,
        inflight := inflight ?w1 @ [(length (log w), LoadAllPerks (allMerchants (view w)))],
        log := log w @ [(now w, query (view w))] \<rparr>"
    by (simp only: step_Submit e)
  have i2: "inflight ?w2 = filter (\<lambda>x. fst x \<noteq> i) (inflight w) @
      [(length (log w), LoadAllPerks (allMerchants (view w)))]"
    by (simp only: w2 w1) simp
  have "map_of (inflight ?w2) (length (log w)) = Some (LoadAllPerks (allMerchants (view w)))"
    unfolding i2 using c by (rule fresh_request)
  then have "step ?w2 (Respond (length (log w)) (Success ps)) =
      ?w2\<lparr> view := settle (LoadAllPerks (allMerchants (view w))) (Success ps) (view ?w2),
            inflight := filter (\<lambda>x. fst x \<noteq> length (log w)) (inflight ?w2) \<rparr>"
    by (rule step_Respond)
  then have v3: "view (run w [Respond i (Failure m), Submit, Respond (length (log w)) (Success ps)]) =
      settle (LoadAllPerks (allMerchants (view w))) (Success ps) (view ?w2)"
    by simp
  have v2: "view ?w2 = (view w)\<lparr> error := [], loading := True \<rparr>"
    by (simp only: w2 w1) simp
  have l2: "log (run w [Respond i (Failure m), Submit]) = log w @ [(now w, query (view w))]"
    using w2 by simp
  have t: "error_text m = (case m of None \<Rightarrow> js ''Failed to load perks''
       | Some s \<Rightarrow> if s = [] then js ''Failed to load perks'' else s)"
    by (simp add: error_text_def truthy_def split: option.splits)
  show ?thesis
    unfolding v3 v2 l2 e(1) using e(2) t error_text_shown [of m] by simp
qed

theorem fetch_failure_displayed_witness:
  "map_of (inflight mount) 0 = Some InitialLoad \<and>
   error (view (step mount (Respond 0 (Failure None)))) = js ''Failed to load perks'' \<and>
   \<not> loading (view (step mount (Respond 0 (Failure None)))) \<and>
   view (run mount [Respond 0 (Failure None), Submit, Respond 1 (Success sample_perks)]) =
     initial_view\<lparr> perks := sample_perks, loading := False \<rparr>"
proof -
  have h0: "mount = run mount []" by simp
  have h1: "map_of (inflight mount) 0 = Some InitialLoad" by (simp add: mount_eq)
  from fetch_failure_displayed [OF h0 h1, where m = None and ps = sample_perks] h1
  show ?thesis
    by (simp add: mount_eq initial_view_def)
qed

text \<open>
  C6. The merchant list derived from a successful unfiltered load has no name twice, and
  holds exactly the merchant names of the returned perks that are not empty and not made
  of whitespace only; every name in it is non-empty after trimming. The initial load
  stores this list as the full merchant set.
\<close>

theorem merchant_set_derivation:
  "distinct (unique ps) \<and>
   set (unique ps) = {s. (\<exists>p \<in> set ps. merchant p = Some s) \<and> \<not> list_all is_ws s} \<and>
   (\<forall>s \<in> set (unique ps). js_trim s \<noteq> []) \<and>
   allMerchants (view (step mount (Respond 0 (Success ps)))) = unique ps"
proof -
  have d: "distinct (unique ps)"
    by (simp add: unique_def new_Set_def distinct_foldl_set_add)
  have s: "set (unique ps) = {s. (\<exists>p \<in> set ps. merchant p = Some s) \<and> \<not> list_all is_ws s}"
    by (simp add: unique_def new_Set_def set_foldl_set_add set_merchants js_trim_empty_iff)
  have t: "\<forall>s \<in> set (unique ps). js_trim s \<noteq> []"
    by (simp add: s js_trim_empty_iff)
  have m: "allMerchants (view (step mount (Respond 0 (Success ps)))) = unique ps"
    by (simp add: mount_eq)
  from d s t m show ?thesis by blast
qed

theorem merchant_set_derivation_witness:
  "unique (sample_perks @ sample_perks @
      [\<lparr> pid = js ''3'', title = js ''C'', merchant = Some (js ''  ''), discountPercent = 5 \<rparr>,
       \<lparr> pid = js ''4'', title = js ''D'', merchant = None, discountPercent = 5 \<rparr>]) =
     [js ''X'', js ''Y''] \<and>
   js_trim (js ''X'') \<noteq> [] \<and> js_trim (js ''Y'') \<noteq> [] \<and> js_trim (js ''  '') = []"
  using merchant_set_derivation [of "sample_perks @ sample_perks @
      [\<lparr> pid = js ''3'', title = js ''C'', merchant = Some (js ''  ''), discountPercent = 5 \<rparr>,
       \<lparr> pid = js ''4'', title = js ''D'', merchant = None, discountPercent = 5 \<rparr>]"]
  by (simp add: unique_def new_Set_def set_add_def merchants_def keep_merchant_def truthy_def
      js_trim_def is_ws_def sample_perks_def js_def)

text \<open>
  C7. Submitting the form issues a request at once, stamped with the current time,
  whatever timers are pending (they are left as they are). Its parameters are the
  trimmed current values of the search text and of the merchant filter, each left out
  when its trimmed value is empty. A value typed or picked immediately before the submit
  is the one sent.
\<close>

theorem search_now_is_immediate:
  "log (step w Submit) =
     log w @ [(now w,
       \<lparr> search_param =
           (if js_trim (searchQuery (view w)) = [] then None
            else Some (js_trim (searchQuery (view w)))),
         merchant_param =
           (if js_trim (merchantFilter (view w)) = [] then None
            else Some (js_trim (merchantFilter (view w)))) \<rparr>)] \<and>
   now (step w Submit) = now w \<and>
   timers (step w Submit) = timers w \<and>
   inflight (step w Submit) = inflight w @ [(length (log w), LoadAllPerks (allMerchants (view w)))] \<and>
   log (run w [Type s, Submit]) =
     log w @ [(now w,
       \<lparr> search_param = (if js_trim s = [] then None else Some (js_trim s)),
         merchant_param =
           (if js_trim (merchantFilter (view w)) = [] then None
            else Some (js_trim (merchantFilter (view w)))) \<rparr>)] \<and>
   log (run w [Select m, Submit]) =
     log w @ [(now w,
       \<lparr> search_param =
           (if js_trim (searchQuery (view w)) = [] then None
            else Some (js_trim (searchQuery (view w)))),
         merchant_param = (if js_trim m = [] then None else Some (js_trim m)) \<rparr>)]"
  by (simp add: query_def or_undefined_def truthy_def)

theorem search_now_is_immediate_witness:
  "timers (run mount [Elapse 100, Type (js '' tea ''), Elapse 50]) =
     [(1, 600, initial_view\<lparr> searchQuery := js '' tea '' \<rparr>)] \<and>
   log (step (run mount [Elapse 100, Type (js '' tea ''), Elapse 50]) Submit) =
     [(0, no_params), (150, \<lparr> search_param = Some (js ''tea''), merchant_param = None \<rparr>)] \<and>
   timers (step (run mount [Elapse 100, Type (js '' tea ''), Elapse 50]) Submit) =
     [(1, 600, initial_view\<lparr> searchQuery := js '' tea '' \<rparr>)] \<and>
   log (run (run mount [Elapse 100, Type (js '' tea ''), Elapse 50]) [Select (js ''X''), Submit]) =
     [(0, no_params), (150, \<lparr> search_param = Some (js ''tea''), merchant_param = Some (js ''X'') \<rparr>)]"
proof -
  let ?w = "run mount [Elapse 100, Type (js '' tea ''), Elapse 50]"
  have w: "?w = \<lparr> view = initial_view\<lparr> searchQuery := js '' tea '' \<rparr>, now = 150,
        timers = [(1, 600, initial_view\<lparr> searchQuery := js '' tea '' \<rparr>)], next_timer = 2,
        delayDebounce = Some 1, inflight = [(0, InitialLoad)], log = [(0, no_params)] \<rparr>"
    by (simp add: eval_defs)
  have t: "js_trim (js '' tea '') = js ''tea''" "js_trim (js ''X'') = js ''X''" "js_trim [] = []"
    "js ''tea'' \<noteq> []" "js ''X'' \<noteq> []"
    by (simp_all add: js_trim_def is_ws_def js_def)
  from search_now_is_immediate [of ?w "js '' tea ''" "js ''X''"]
  show ?thesis
    unfolding w by (simp add: t initial_view_def)
qed

text \<open>
  C8. Reset Filters sets both filter fields to the empty string and the dropdown to the
  full merchant set, and issues no request. When a field was not empty the debounce
  effect sets its timer, which sends the unfiltered request 500 ms later; when both were
  empty already nothing is scheduled.
\<close>

theorem reset_filters_clears:
  assumes "w = run mount es"
  shows "view (step w Reset) =
      (view w)\<lparr> searchQuery := [], merchantFilter := [], uniqueMerchants := allMerchants (view w) \<rparr> \<and>
    log (step w Reset) = log w \<and> inflight (step w Reset) = inflight w \<and>
    ([searchQuery (view w), merchantFilter (view w)] \<noteq> [[], []] \<longrightarrow>
       timers (step w Reset) = [(next_timer w, now w + 500, view (step w Reset))] \<and>
       log (run w [Reset, Elapse 500]) = log w @ [(now w + 500, no_params)]) \<and>
    ([searchQuery (view w), merchantFilter (view w)] = [[], []] \<longrightarrow>
       timers (step w Reset) = timers w)"
proof -
  have c: "consistent w" using assms by (simp add: consistent_reachable)
  let ?v = "(view w)\<lparr> searchQuery := [], merchantFilter := [], uniqueMerchants := allMerchants (view w) \<rparr>"
  have changed: "timers (step w Reset) = [(next_timer w, now w + 500, view (step w Reset))] \<and>
       log (run w [Reset, Elapse 500]) = log w @ [(now w + 500, no_params)]"
    if h: "[searchQuery (view w), merchantFilter (view w)] \<noteq> [[], []]"
  proof -
    from h have "[searchQuery ?v, merchantFilter ?v] \<noteq> [searchQuery (view w), merchantFilter (view w)]"
      by auto
    from commit_changed [OF c this]
    have r: "step w Reset = w\<lparr> view := ?v, timers := [(next_timer w, now w + 500, ?v)],
            next_timer := Suc (next_timer w), delayDebounce := Some (next_timer w) \<rparr>"
      by simp
    have t: "timers (step w Reset) = [(next_timer w, now w + 500, ?v)]" by (subst r) simp
    have n: "now w + 500 \<le> now (step w Reset) + 500" by (subst r) simp
    have "log (elapse 500 (step w Reset)) = log (step w Reset) @ [(now w + 500, query (view (step w Reset)))]"
      using consistent_step [OF c] t n by (rule elapse_fires)
    moreover have "query (view (step w Reset)) = no_params" by (rule query_empty) simp_all
    ultimately show ?thesis using t by simp
  qed
  have same: "timers (step w Reset) = timers w"
    if "[searchQuery (view w), merchantFilter (view w)] = [[], []]"
    using that by (simp add: commit_def)
  show ?thesis using changed same by simp
qed

theorem reset_filters_clears_witness:
  "[searchQuery (view (run mount [Type (js ''a'')])), merchantFilter (view (run mount [Type (js ''a'')]))]
     \<noteq> [[], []] \<and>
   view (step (run mount [Type (js ''a'')]) Reset) = initial_view \<and>
   timers (step (run mount [Type (js ''a'')]) Reset) = [(2, 500, initial_view)] \<and>
   log (run (run mount [Type (js ''a'')]) [Reset, Elapse 500]) = [(0, no_params), (500, no_params)]"
proof -
  let ?w = "run mount [Type (js ''a'')]"
  have w: "?w = \<lparr> view = initial_view\<lparr> searchQuery := js ''a'' \<rparr>, now = 0,
        timers = [(1, 500, initial_view\<lparr> searchQuery := js ''a'' \<rparr>)], next_timer = 2,
        delayDebounce = Some 1, inflight = [(0, InitialLoad)], log = [(0, no_params)] \<rparr>"
    by (simp add: eval_defs)
  have h1: "[searchQuery (view ?w), merchantFilter (view ?w)] \<noteq> [[], []]"
    unfolding w by (simp add: js_def)
  from reset_filters_clears [OF refl, where es = "[Type (js ''a'')]"] h1
  show ?thesis
    unfolding w by (simp add: initial_view_def)
qed

text \<open>
  C9. For the two perks of the example the grid has two cards, only the second has a
  discount badge and it reads \<^verbatim>\<open>20% OFF\<close>, and the count reads
  \<^verbatim>\<open>Showing 2 perks\<close>; for every perk a badge is rendered exactly when its
  \<^verbatim>\<open>discountPercent\<close> is above zero.
\<close>

theorem example_rendering:
  "grid sample_perks =
     [\<lparr> link_to = js ''/perks/1'', card_title = js ''A'', merchant_line = Some (js ''X''),
        badge = None \<rparr>,
      \<lparr> link_to = js ''/perks/2'', card_title = js ''B'', merchant_line = Some (js ''Y''),
        badge = Some (js ''20% OFF'') \<rparr>] \<and>
   length (grid sample_perks) = 2 \<and>
   count_text sample_perks = js ''Showing 2 perks'' \<and>
   (badge (render_card p) \<noteq> None) = (discountPercent p > 0)"
proof (intro conjI)
  show "length (grid sample_perks) = 2" by (simp add: grid_sample)
  show "(badge (render_card p) \<noteq> None) = (discountPercent p > 0)" by (rule badge_iff)
qed (rule grid_sample count_sample)+

text \<open>
  C10. A failing request changes nothing but the error message and the loading flag:
  the perks, the dropdown and the full merchant set after the failure are those before
  it, also when the whole fetch, from the submit to its failure, is taken together.
\<close>

theorem failure_keeps_results:
  assumes "w = run mount es" "map_of (inflight w) i = Some k"
  shows "view (step w (Respond i (Failure m))) = (view w)\<lparr> error := error_text m, loading := False \<rparr> \<and>
    perks (view (step w (Respond i (Failure m)))) = perks (view w) \<and>
    uniqueMerchants (view (step w (Respond i (Failure m)))) = uniqueMerchants (view w) \<and>
    allMerchants (view (step w (Respond i (Failure m)))) = allMerchants (view w) \<and>
    perks (view (run w [Submit, Respond (length (log w)) (Failure m)])) = perks (view w) \<and>
    uniqueMerchants (view (run w [Submit, Respond (length (log w)) (Failure m)])) = uniqueMerchants (view w)"
proof -
  have c: "consistent w" using assms(1) by (simp add: consistent_reachable)
  have a: "view (step w (Respond i (Failure m))) = (view w)\<lparr> error := error_text m, loading := False \<rparr>"
    by (simp only: step_Respond [OF assms(2)] settle_Failure) simp
  let ?w1 = "step w Submit"
  have "map_of (inflight ?w1) (length (log w)) = Some (LoadAllPerks (allMerchants (view w)))"
    using fresh_request [OF c, of "\<lambda>x. True"] by (simp add: step_Submit)
  then have "view (step ?w1 (Respond (length (log w)) (Failure m))) =
      (view ?w1)\<lparr> error := error_text m, loading := False \<rparr>"
    by (simp only: step_Respond settle_Failure) simp
  then have b: "view (run w [Submit, Respond (length (log w)) (Failure m)]) =
      (view w)\<lparr> error := error_text m, loading := False \<rparr>"
    by (simp add: step_Submit)
  show ?thesis by (simp only: a b) simp
qed

theorem failure_keeps_results_witness:
  "map_of (inflight (run mount [Respond 0 (Success sample_perks), Type (js ''q''), Submit])) 1 =
     Some (LoadAllPerks [js ''X'', js ''Y'']) \<and>
   view (run mount [Respond 0 (Success sample_perks), Type (js ''q''), Submit]) =
     \<lparr> perks = sample_perks, allMerchants = [js ''X'', js ''Y''],
       uniqueMerchants = [js ''X'', js ''Y''], searchQuery = js ''q'', merchantFilter = [],
       loading = True, error = [] \<rparr> \<and>
   view (step (run mount [Respond 0 (Success sample_perks), Type (js ''q''), Submit])
           (Respond 1 (Failure (Some (js ''boom''))))) =
     \<lparr> perks = sample_perks, allMerchants = [js ''X'', js ''Y''],
       uniqueMerchants = [js ''X'', js ''Y''], searchQuery = js ''q'', merchantFilter = [],
       loading = False, error = js ''boom'' \<rparr> \<and>
   perks (view (run (run mount [Respond 0 (Success sample_perks), Type (js ''q''), Submit])
                  [Submit, Respond 2 (Failure (Some (js ''boom'')))])) = sample_perks \<and>
   uniqueMerchants (view (run (run mount [Respond 0 (Success sample_perks), Type (js ''q''), Submit])
                  [Submit, Respond 2 (Failure (Some (js ''boom'')))])) = [js ''X'', js ''Y'']"
proof -
  let ?es = "[Respond 0 (Success sample_perks), Type (js ''q''), Submit]"
  let ?v = "\<lparr> perks = sample_perks, allMerchants = [js ''X'', js ''Y''],
       uniqueMerchants = [js ''X'', js ''Y''], searchQuery = js ''q'', merchantFilter = [],
       loading = False, error = [] \<rparr>"
  have u: "unique sample_perks = [js ''X'', js ''Y'']"
    by (simp add: unique_def new_Set_def set_add_def merchants_def keep_merchant_def truthy_def
        js_trim_def is_ws_def sample_perks_def js_def)
  have q: "js ''q'' \<noteq> []" by (simp add: js_def)
  have w: "run mount ?es =
      \<lparr> view = ?v\<lparr> loading := True \<rparr>, now = 0, timers = [(1, 500, ?v)], next_timer = 2,
        delayDebounce = Some 1, inflight = [(1, LoadAllPerks [js ''X'', js ''Y''])],
        log = [(0, no_params), (0, query ?v)] \<rparr>"
    using q
    by (simp add: mount_eq commit_def debounce_effect_def setTimeout_def clearTimeout_def
        loadAllPerks_def api_get_def initial_view_def u query_def)
  have h1: "map_of (inflight (run mount ?es)) 1 = Some (LoadAllPerks [js ''X'', js ''Y''])"
    unfolding w by simp
  have e: "error_text (Some (js ''boom'')) = js ''boom''"
    by (simp add: error_text_def truthy_def js_def)
  from failure_keeps_results [OF refl h1, where m = "Some (js ''boom'')"] h1
  show ?thesis
    unfolding w by (simp add: e)
qed

end
